theory Spec2Isabelle
  imports Complex_Main
begin

section \<open>Python values, exceptions and the object store\<close>

text \<open>
  The script \<^verbatim>\<open>exercises/gradient_descent_investigation.py\<close> passes around four kinds of
  Python values that matter here: \<^verbatim>\<open>None\<close>, floats, numpy arrays and Python lists. Lists
  are mutable and shared by reference (the recorder hands the same two list objects to
  its caller and to the closure), so they live in a store and a value only refers to
  them by address. A numpy array is taken as an immutable vector of reals: nothing in the
  script writes into one. Floats are read as reals.
\<close>

datatype py_error =
    AttributeError
  | NotImplementedError
  | KeyError
  | DimensionMismatch
  | Instability
  | InvalidConfiguration

datatype pyval =
    PyNone
  | PyFloat real
  | PyInt int
  | NdArray "real list"
  | PyObject string
  | PyList nat

text \<open>
  The store holds the contents of every list object; the address of a list is its
  position. A new list gets the next free position, so an address once handed out is
  never handed out again.
\<close>

type_synonym heap = "pyval list list"

type_synonym 'a py = "heap \<Rightarrow> (py_error + 'a) \<times> heap"

definition py_raise :: "py_error \<Rightarrow> 'a py" where
  "py_raise e h = (Inl e, h)"

definition py_return :: "'a \<Rightarrow> 'a py" where
  "py_return x h = (Inr x, h)"

text \<open>Statement sequencing: an exception in the first statement skips the rest.\<close>

definition py_bind :: "'a py \<Rightarrow> ('a \<Rightarrow> 'b py) \<Rightarrow> 'b py" where
  "py_bind m k h = (case m h of (Inl e, h') \<Rightarrow> (Inl e, h') | (Inr x, h') \<Rightarrow> k x h')"

definition py_seq :: "unit py \<Rightarrow> 'b py \<Rightarrow> 'b py" where
  "py_seq m k = py_bind m (\<lambda>_. k)"

text \<open>\<^verbatim>\<open>[]\<close>: a new empty list object.\<close>

definition new_list :: "nat py" where
  "new_list h = (Inr (length h), h @ [[]])"

text \<open>
  \<^verbatim>\<open>target.append(v)\<close>. Only a list object has an \<^verbatim>\<open>append\<close> attribute: \<^verbatim>\<open>None\<close>, a float,
  an int, a numpy array and the solver object have none, and looking the attribute up
  raises \<^verbatim>\<open>AttributeError\<close> before anything is changed. A list reference outside the
  store denotes no object; no run of the script produces one, and the model treats it as
  having no attributes.
\<close>

definition py_append :: "pyval \<Rightarrow> pyval \<Rightarrow> unit py" where
  "py_append target v h =
     (case target of
        PyList a \<Rightarrow>
          (if a < length h then (Inr (), h[a := h ! a @ [v]]) else (Inl AttributeError, h))
      | _ \<Rightarrow> (Inl AttributeError, h))"

text \<open>What a list object holds; \<open>None\<close> where the address denotes no object.\<close>

definition contents :: "heap \<Rightarrow> nat \<Rightarrow> pyval list option" where
  "contents h a = (if a < length h then Some (h ! a) else None)"

section \<open>The state recorder\<close>

text \<open>
  \<^verbatim>\<open>
  def get_gd_state_recorder_callback():
      weights, losses = [], []

      def callback(solver=None, weights=None, val=None, grad=None, t=None, eta=None, delta=None):
          weights.append(weights)
          losses.append(val)

      return callback, weights, losses
  \<close>
  Inside \<^verbatim>\<open>callback\<close> the name \<^verbatim>\<open>weights\<close> is the parameter: it hides the list of the
  enclosing function, so the closure captures \<^verbatim>\<open>losses\<close> only. Every parameter defaults
  to \<^verbatim>\<open>None\<close>.
\<close>

record cb_args =
  solver :: pyval
  weights :: pyval
  val :: pyval
  grad :: pyval
  t :: pyval
  eta :: pyval
  delta :: pyval

definition default_args :: cb_args where
  "default_args = \<lparr>solver = PyNone, weights = PyNone, val = PyNone, grad = PyNone,
                    t = PyNone, eta = PyNone, delta = PyNone\<rparr>"

datatype closure = Closure (losses: nat)

definition callback :: "closure \<Rightarrow> cb_args \<Rightarrow> unit py" where
  "callback c args =
     py_seq (py_append (weights args) (weights args))
            (py_append (PyList (losses c)) (val args))"

definition get_gd_state_recorder_callback :: "(closure \<times> nat \<times> nat) py" where
  "get_gd_state_recorder_callback =
     py_bind new_list (\<lambda>w. py_bind new_list (\<lambda>l. py_return (Closure l, w, l)))"

text \<open>
  The callback invoked once per executed iteration, in order, as the solver does: the
  first exception ends the run.
\<close>

fun invoke_all :: "closure \<Rightarrow> cb_args list \<Rightarrow> unit py" where
  "invoke_all c [] = py_return ()"
| "invoke_all c (a # as) = py_seq (callback c a) (invoke_all c as)"

section \<open>The unfinished experiments\<close>

text \<open>
  \<^verbatim>\<open>
  def compare_exponential_decay_rates(init=..., eta=.1, gammas=(.9, .95, .99, 1)):
      raise NotImplementedError()
      raise NotImplementedError()
      raise NotImplementedError()
  \<close>
  The default values are built when the function is defined, not when it is called.
\<close>

definition compare_exponential_decay_rates :: "pyval \<Rightarrow> pyval \<Rightarrow> pyval \<Rightarrow> unit py" where
  "compare_exponential_decay_rates init eta0 gammas =
     py_seq (py_raise NotImplementedError)
       (py_seq (py_raise NotImplementedError) (py_raise NotImplementedError))"

section \<open>Loading the heart-disease table\<close>

text \<open>
  A pandas table is a sequence of named columns of equal length; a cell is a string, an
  integer, a float or a missing value. \<^verbatim>\<open>pd.read_csv\<close> is outside the script: the table it
  returns is an argument of the model.
\<close>

datatype cell = CStr string | CInt int | CFloat real | CNaN

type_synonym series = "cell list"

type_synonym dataframe = "(string \<times> series) list"

definition columns :: "dataframe \<Rightarrow> string list" where
  "columns df = map fst df"

text \<open>\<^verbatim>\<open>df.name\<close>: the column of that name, \<^verbatim>\<open>AttributeError\<close> when there is none.\<close>

definition getattr_column :: "dataframe \<Rightarrow> string \<Rightarrow> py_error + series" where
  "getattr_column df name =
     (case map_of df name of None \<Rightarrow> Inl AttributeError | Some s \<Rightarrow> Inr s)"

text \<open>\<^verbatim>\<open>df.name = s\<close> for a column that exists: the column is replaced where it stands.\<close>

definition setattr_column :: "dataframe \<Rightarrow> string \<Rightarrow> series \<Rightarrow> dataframe" where
  "setattr_column df name s = map (\<lambda>(n, c). if n = name then (n, s) else (n, c)) df"

text \<open>\<^verbatim>\<open>s == v\<close>, cell by cell.\<close>

definition series_eq :: "series \<Rightarrow> cell \<Rightarrow> bool list" where
  "series_eq s v = map (\<lambda>c. c = v) s"

text \<open>\<^verbatim>\<open>.astype(int)\<close> on a boolean series.\<close>

definition astype_int :: "bool list \<Rightarrow> series" where
  "astype_int bs = map (\<lambda>b. CInt (if b then 1 else 0)) bs"

text \<open>\<^verbatim>\<open>df.drop(labels, axis=1)\<close>: \<^verbatim>\<open>KeyError\<close> when a label names no column.\<close>

definition drop_columns :: "dataframe \<Rightarrow> string list \<Rightarrow> py_error + dataframe" where
  "drop_columns df labels =
     (if \<forall>l \<in> set labels. l \<in> set (columns df)
      then Inr (filter (\<lambda>(n, c). n \<notin> set labels) df)
      else Inl KeyError)"

text \<open>
  \<^verbatim>\<open>
  def load_data(path="../datasets/SAheart.data", train_portion=.8):
      df = pd.read_csv(path)
      df.famhist = (df.famhist == 'Present').astype(int)
      return split_train_test(df.drop(['chd', 'row.names'], axis=1), df.chd, train_portion)
  \<close>
  \<^verbatim>\<open>split_train_test\<close> comes from \<^verbatim>\<open>IMLearn.utils\<close> and is an argument of the model. The
  arguments of the call are evaluated from left to right.
\<close>

definition load_data ::
  "(dataframe \<Rightarrow> series \<Rightarrow> real \<Rightarrow> py_error + 'r) \<Rightarrow> dataframe \<Rightarrow> real \<Rightarrow> py_error + 'r" where
  "load_data split df train_portion =
     (case getattr_column df ''famhist'' of
        Inl e \<Rightarrow> Inl e
      | Inr fam \<Rightarrow>
          (let df1 = setattr_column df ''famhist'' (astype_int (series_eq fam (CStr ''Present'')))
           in case drop_columns df1 [''chd'', ''row.names''] of
                Inl e \<Rightarrow> Inl e
              | Inr X \<Rightarrow>
                  (case getattr_column df1 ''chd'' of
                     Inl e \<Rightarrow> Inl e
                   | Inr y \<Rightarrow> split X y train_portion)))"

text \<open>
  Modelled from the spec: \<^verbatim>\<open>IMLearn.utils.split_train_test\<close>, which is not among the
  sources. The spec calls it "a randomized train/test split by a configurable
  proportion", and the docstring of \<^verbatim>\<open>load_data\<close> gives the sizes: the train part has
  \<open>\<lceil>train_proportion \<sqdot> n_samples\<rceil>\<close> rows and the test part the rest, both with every
  column of the design matrix. The random order of the rows is the argument \<open>order\<close>.
\<close>

definition select_rows :: "nat list \<Rightarrow> series \<Rightarrow> series" where
  "select_rows idx s = map (\<lambda>i. s ! i) idx"

definition split_train_test ::
  "nat list \<Rightarrow> dataframe \<Rightarrow> series \<Rightarrow> real
     \<Rightarrow> py_error + (dataframe \<times> series \<times> dataframe \<times> series)" where
  "split_train_test order X y train_proportion =
     (let k = nat \<lceil>train_proportion * real (length y)\<rceil>;
          train = take k order;
          test = drop k order
      in Inr (map (\<lambda>(n, c). (n, select_rows train c)) X, select_rows train y,
              map (\<lambda>(n, c). (n, select_rows test c)) X, select_rows test y))"

section \<open>The optimization loop\<close>

text \<open>
  Modelled from the spec: the class \<^verbatim>\<open>GradientDescent\<close> of \<^verbatim>\<open>IMLearn.desent_methods\<close>, with its
  method \<^verbatim>\<open>fit\<close>, is not among the sources; the script only builds it and calls it. The
  definitions of this section follow section 4.1 of the spec.

  An objective maps a weight vector to a scalar value and to a gradient; a value or a
  gradient that is not finite (NaN, Inf) is \<open>None\<close>. The step-size policy maps the
  iteration index to the learning rate. The observer is called once per completed
  iteration; it has a state of its own and may raise.
\<close>

type_synonym vec = "real list"

record objective =
  compute_output :: "vec \<Rightarrow> real option"
  compute_jacobian :: "vec \<Rightarrow> vec option"

datatype out_policy = Last | Best

text \<open>One entry of the trajectory: what the observer is given at an iteration.\<close>

record step =
  step_index :: nat
  step_weights :: vec
  step_val :: real
  step_grad :: vec
  step_eta :: real

type_synonym 's observer = "step \<Rightarrow> 's \<Rightarrow> (py_error + unit) \<times> 's"

record 's gradient_descent =
  learning_rate :: "nat \<Rightarrow> real"
  tol :: real
  max_iter :: int
  out_type :: out_policy
  observer :: "'s observer"

text \<open>
  What a run leaves behind: the error that ended it, if any; the last valid iterate; the
  trajectory, in the order of execution; the state of the observer; and the number of
  iterations that were started.
\<close>

record 's gd_run =
  run_error :: "py_error option"
  run_weights :: vec
  run_trajectory :: "step list"
  run_state :: 's
  run_steps :: nat

definition vec_sub :: "vec \<Rightarrow> vec \<Rightarrow> vec" where
  "vec_sub u v = map (\<lambda>(x, y). x - y) (zip u v)"

definition vec_scale :: "real \<Rightarrow> vec \<Rightarrow> vec" where
  "vec_scale c v = map (\<lambda>x. c * x) v"

text \<open>The square of the Euclidean norm.\<close>

definition norm_sq :: "vec \<Rightarrow> real" where
  "norm_sq v = sum_list (map (\<lambda>x. x * x) v)"

text \<open>
  The loop, at iteration \<open>k\<close> with current weights \<open>w\<close>: it stops when \<open>k\<close> reaches the
  maximum; otherwise it takes the gradient at \<open>w\<close> (\<open>Instability\<close> when it is not finite,
  \<open>DimensionMismatch\<close> when its dimension is not that of \<open>w\<close>), moves to
  \<open>w - learning_rate k \<sqdot> gradient\<close>, evaluates the objective there (\<open>Instability\<close> when it
  is not finite, before the observer is called), calls the observer with the snapshot of
  the iteration, records it, and stops when the norm of the difference of the successive
  weights is below the tolerance. The tolerance is not negative when the loop runs, so
  the norm is below it exactly when the squared norm is below its square.
\<close>

function gd_loop ::
  "'s gradient_descent \<Rightarrow> objective \<Rightarrow> nat \<Rightarrow> vec \<Rightarrow> step list \<Rightarrow> 's \<Rightarrow> 's gd_run" where
  "gd_loop gd f k w traj s =
     (if nat (max_iter gd) \<le> k
      then \<lparr>run_error = None, run_weights = w, run_trajectory = traj, run_state = s,
            run_steps = k\<rparr>
      else
        (case compute_jacobian f w of
           None \<Rightarrow> \<lparr>run_error = Some Instability, run_weights = w, run_trajectory = traj,
                     run_state = s, run_steps = Suc k\<rparr>
         | Some g \<Rightarrow>
             if length g \<noteq> length w
             then \<lparr>run_error = Some DimensionMismatch, run_weights = w, run_trajectory = traj,
                   run_state = s, run_steps = Suc k\<rparr>
             else
               (let w' = vec_sub w (vec_scale (learning_rate gd k) g) in
                case compute_output f w' of
                  None \<Rightarrow> \<lparr>run_error = Some Instability, run_weights = w,
                            run_trajectory = traj, run_state = s, run_steps = Suc k\<rparr>
                | Some v \<Rightarrow>
                    (let r = \<lparr>step_index = k, step_weights = w', step_val = v, step_grad = g,
                              step_eta = learning_rate gd k\<rparr> in
                     case observer gd r s of
                       (Inl e, s') \<Rightarrow> \<lparr>run_error = Some e, run_weights = w',
                                       run_trajectory = traj, run_state = s',
                                       run_steps = Suc k\<rparr>
                     | (Inr _, s') \<Rightarrow>
                         if norm_sq (vec_sub w' w) < tol gd * tol gd
                         then \<lparr>run_error = None, run_weights = w',
                               run_trajectory = traj @ [r], run_state = s',
                               run_steps = Suc k\<rparr>
                         else gd_loop gd f (Suc k) w' (traj @ [r]) s'))))"
  by pat_completeness auto
termination
  by (relation "measure (\<lambda>(gd, f, k, w, traj, s). nat (max_iter gd) - k)") auto

declare gd_loop.simps [simp del]

text \<open>The first entry of lowest objective value.\<close>

fun best_step :: "step list \<Rightarrow> step option" where
  "best_step [] = None"
| "best_step (r # rs) =
     (case best_step rs of
        None \<Rightarrow> Some r
      | Some b \<Rightarrow> if step_val r \<le> step_val b then Some r else Some b)"

text \<open>
  The output policy: \<open>Last\<close> gives the final iterate, \<open>Best\<close> the recorded iterate of lowest
  objective value.
\<close>

definition select_output :: "out_policy \<Rightarrow> 's gd_run \<Rightarrow> vec" where
  "select_output p run =
     (case p of
        Last \<Rightarrow> run_weights run
      | Best \<Rightarrow>
          (case best_step (run_trajectory run) of
             None \<Rightarrow> run_weights run
           | Some b \<Rightarrow> step_weights b))"

text \<open>
  \<^verbatim>\<open>fit\<close>: a bad configuration is rejected before the first iteration; an error of the
  loop goes to the caller; otherwise the output policy picks the result. The run is
  returned beside the outcome, since the observer's state survives an exception.
\<close>

definition fit :: "'s gradient_descent \<Rightarrow> objective \<Rightarrow> vec \<Rightarrow> 's \<Rightarrow> (py_error + vec) \<times> 's gd_run" where
  "fit gd f w0 s =
     (if max_iter gd \<le> 0 \<or> tol gd < 0
      then (Inl InvalidConfiguration,
            \<lparr>run_error = Some InvalidConfiguration, run_weights = w0, run_trajectory = [],
             run_state = s, run_steps = 0\<rparr>)
      else
        (let run = gd_loop gd f 0 w0 [] s in
         case run_error run of
           Some e \<Rightarrow> (Inl e, run)
         | None \<Rightarrow> (Inr (select_output (out_type gd) run), run)))"



text \<open>
  Modelled from the spec: the objects the script hands to the solver, none of them among
  the sources. \<^verbatim>\<open>FixedLR\<close> is the constant step-size policy, \<^verbatim>\<open>L2\<close> the squared L2 norm
  with gradient \<open>2w\<close> (section 8 of the spec); \<open>list_recorder\<close> is an observer that
  appends the snapshot of each iteration to a trajectory buffer of its own.
\<close>

definition FixedLR :: "real \<Rightarrow> nat \<Rightarrow> real" where
  "FixedLR base_lr k = base_lr"

definition L2 :: objective where
  "L2 = \<lparr>compute_output = (\<lambda>w. Some (norm_sq w)),
          compute_jacobian = (\<lambda>w. Some (vec_scale 2 w))\<rparr>"

definition list_recorder :: "step list observer" where
  "list_recorder r s = (Inr (), s @ [r])"

text \<open>
  The solver as \<^verbatim>\<open>compare_fixed_learning_rates\<close> builds it,
  \<^verbatim>\<open>GradientDescent(learning_rate=FixedLR(eta), out_type=out_type, callback=cb)\<close>; the
  tolerance and the iteration cap, which the script leaves at the library's defaults, are
  arguments here.
\<close>

definition GradientDescent ::
  "real \<Rightarrow> real \<Rightarrow> int \<Rightarrow> out_policy \<Rightarrow> 's observer \<Rightarrow> 's gradient_descent" where
  "GradientDescent base_lr tolerance cap p cb =
     \<lparr>learning_rate = FixedLR base_lr, tol = tolerance, max_iter = cap, out_type = p,
      observer = cb\<rparr>"



section \<open>The recorder: what a call does\<close>

lemma get_gd_state_recorder_callback_eq:
  "get_gd_state_recorder_callback h =
     (Inr (Closure (Suc (length h)), length h, Suc (length h)), h @ [[], []])"
  by (simp add: get_gd_state_recorder_callback_def py_bind_def new_list_def py_return_def)

lemma py_append_no_attribute:
  "(\<forall>a. target \<noteq> PyList a) \<Longrightarrow> py_append target v h = (Inl AttributeError, h)"
  by (cases target) (simp_all add: py_append_def)

lemma callback_no_attribute:
  "(\<forall>a. weights args \<noteq> PyList a) \<Longrightarrow> callback c args h = (Inl AttributeError, h)"
  by (simp add: callback_def py_seq_def py_bind_def py_append_no_attribute)

lemma contents_py_append_other:
  "a \<noteq> b \<Longrightarrow> contents (snd (py_append (PyList b) v h)) a = contents h a"
  by (simp add: py_append_def contents_def)

text \<open>
  C1. The claim: a call of the recorder with a weight vector \<open>w\<close> and an objective value
  \<open>v\<close> appends \<open>w\<close> to the returned weights list and \<open>v\<close> to the returned losses list.
  The code at the call \<^verbatim>\<open>callback(weights=np.array([1., 2.]), val=3.0)\<close> on a new recorder:
  the call raises \<^verbatim>\<open>AttributeError\<close> and both lists, at addresses 0 and 1, stay empty.
\<close>

theorem callback_ndarray_raises:
  "get_gd_state_recorder_callback [] = (Inr (Closure 1, 0, 1), [[], []]) \<and>
   callback (Closure 1) (default_args\<lparr>weights := NdArray [1, 2], val := PyFloat 3\<rparr>) [[], []]
     = (Inl AttributeError, [[], []]) \<and>
   contents [[], []] 0 = Some [] \<and> contents [[], []] 1 = Some []"
  by (simp add: get_gd_state_recorder_callback_eq callback_def py_seq_def py_bind_def
      py_append_def default_args_def contents_def)

text \<open>
  C2. The claim: after \<open>n\<close> calls of the recorder both lists have length \<open>n\<close>, in the order
  of the calls. The code at \<open>n = 1\<close>: with a numpy array as weights the call raises and
  both lists have length 0; with a Python list as weights (here the list at address 2)
  the call returns, the losses list has one element, the returned weights list is still
  empty, and the argument has been appended to itself.
\<close>

theorem one_invocation_records_nothing:
  "invoke_all (Closure 1) [default_args\<lparr>weights := NdArray [1, 2], val := PyFloat 3\<rparr>] [[], []]
     = (Inl AttributeError, [[], []]) \<and>
   map_option length (contents [[], []] 0) = Some 0 \<and>
   map_option length (contents [[], []] 1) = Some 0 \<and>
   invoke_all (Closure 1) [default_args\<lparr>weights := PyList 2, val := PyFloat 3\<rparr>] [[], [], []]
     = (Inr (), [[], [PyFloat 3], [PyList 2]])"
  by (simp add: callback_def py_seq_def py_bind_def py_return_def
      py_append_def default_args_def contents_def)

text \<open>
  C3. When the weights argument of a call is \<^verbatim>\<open>None\<close> or a numpy array, the call raises
  \<^verbatim>\<open>AttributeError\<close> and leaves the store as it was: the failing \<^verbatim>\<open>append\<close> comes first, so
  the losses list is unchanged.
\<close>

theorem callback_raises_attribute_error:
  assumes "weights args = PyNone \<or> (\<exists>xs. weights args = NdArray xs)"
  shows "callback c args h = (Inl AttributeError, h) \<and>
         contents (snd (callback c args h)) (losses c) = contents h (losses c)"
proof -
  from assms have "\<forall>a. weights args \<noteq> PyList a" by auto
  then have "callback c args h = (Inl AttributeError, h)"
    by (rule callback_no_attribute)
  then show ?thesis by simp
qed

theorem callback_raises_attribute_error_witness:
  "(weights default_args = PyNone \<or> (\<exists>xs. weights default_args = NdArray xs)) \<and>
   callback (Closure 1) default_args [[], [PyFloat 3]] = (Inl AttributeError, [[], [PyFloat 3]])"
  using callback_raises_attribute_error [of default_args "Closure 1" "[[], [PyFloat 3]]"]
  by (simp add: default_args_def)

text \<open>
  C4. Every call of \<^verbatim>\<open>get_gd_state_recorder_callback\<close> returns two new lists: their addresses
  were not in use before the call and both lists are empty after it. The lists of two
  calls, the second made in a store at least as large as the one the first call left,
  are four different objects, the second call leaves the lists of the first as they are,
  and an \<^verbatim>\<open>append\<close> to a list of one recorder does not change a list of the other.
\<close>

theorem recorder_lists_fresh_and_disjoint:
  assumes "get_gd_state_recorder_callback h1 = (Inr (c1, w1, l1), h1')"
    and "length h1' \<le> length h2"
    and "get_gd_state_recorder_callback h2 = (Inr (c2, w2, l2), h2')"
  shows "contents h1 w1 = None \<and> contents h1 l1 = None \<and>
         contents h1' w1 = Some [] \<and> contents h1' l1 = Some [] \<and>
         contents h2 w2 = None \<and> contents h2 l2 = None \<and>
         contents h2' w2 = Some [] \<and> contents h2' l2 = Some [] \<and>
         distinct [w1, l1, w2, l2] \<and>
         contents h2' w1 = contents h2 w1 \<and> contents h2' l1 = contents h2 l1 \<and>
         (\<forall>a. a < length h1 \<longrightarrow> contents h1' a = contents h1 a) \<and>
         (\<forall>a \<in> {w1, l1}. \<forall>b \<in> {w2, l2}. \<forall>v h.
            contents (snd (py_append (PyList b) v h)) a = contents h a \<and>
            contents (snd (py_append (PyList a) v h)) b = contents h b)"
proof -
  from assms(1) have 1: "w1 = length h1" "l1 = Suc (length h1)" "h1' = h1 @ [[], []]"
    by (simp_all add: get_gd_state_recorder_callback_eq)
  from assms(3) have 2: "w2 = length h2" "l2 = Suc (length h2)" "h2' = h2 @ [[], []]"
    by (simp_all add: get_gd_state_recorder_callback_eq)
  from assms(2) 1 have 3: "Suc (Suc (length h1)) \<le> length h2" by simp
  have d: "distinct [w1, l1, w2, l2]" using 1 2 3 by simp
  have a: "contents h1 w1 = None" "contents h1 l1 = None"
    "contents h1' w1 = Some []" "contents h1' l1 = Some []"
    using 1 by (simp_all add: contents_def nth_append)
  have b: "contents h2 w2 = None" "contents h2 l2 = None"
    "contents h2' w2 = Some []" "contents h2' l2 = Some []"
    using 2 by (simp_all add: contents_def nth_append)
  have c: "contents h2' w1 = contents h2 w1" "contents h2' l1 = contents h2 l1"
    using 1 2 3 by (simp_all add: contents_def nth_append)
  have e: "\<forall>a. a < length h1 \<longrightarrow> contents h1' a = contents h1 a"
    using 1 by (simp add: contents_def nth_append)
  have f: "\<forall>a \<in> {w1, l1}. \<forall>b \<in> {w2, l2}. \<forall>v h.
            contents (snd (py_append (PyList b) v h)) a = contents h a \<and>
            contents (snd (py_append (PyList a) v h)) b = contents h b"
    using d by (auto simp: contents_py_append_other)
  from a b c d e f show ?thesis by blast
qed

theorem recorder_lists_fresh_and_disjoint_witness:
  "get_gd_state_recorder_callback [] = (Inr (Closure 1, 0, 1), [[], []]) \<and>
   length [[], []::pyval list] \<le> length [[], [PyFloat 3]] \<and>
   get_gd_state_recorder_callback [[], [PyFloat 3]]
     = (Inr (Closure 3, 2, 3), [[], [PyFloat 3], [], []]) \<and>
   distinct [0, 1, 2, 3::nat] \<and>
   contents [[], [PyFloat 3], [], []] 2 = Some [] \<and>
   contents [[], [PyFloat 3], [], []] 3 = Some [] \<and>
   contents [[], [PyFloat 3], [], []] 1 = contents [[], [PyFloat 3]] 1"
proof -
  have 1: "get_gd_state_recorder_callback [] = (Inr (Closure 1, 0, 1), [[], []])"
    by (simp add: get_gd_state_recorder_callback_eq)
  have 2: "length [[], []::pyval list] \<le> length [[], [PyFloat 3]]" by simp
  have 3: "get_gd_state_recorder_callback [[], [PyFloat 3]]
     = (Inr (Closure 3, 2, 3), [[], [PyFloat 3], [], []])"
    by (simp add: get_gd_state_recorder_callback_eq)
  from recorder_lists_fresh_and_disjoint [OF 1 2 3] 1 2 3 show ?thesis by simp
qed

section \<open>The unfinished experiment raises at once\<close>

text \<open>
  C5. For every input and in every store, \<^verbatim>\<open>compare_exponential_decay_rates\<close> raises
  \<^verbatim>\<open>NotImplementedError\<close> and leaves the store as it was: the first statement raises and
  nothing runs before it.
\<close>

theorem compare_exponential_decay_rates_raises:
  "compare_exponential_decay_rates init eta0 gammas h = (Inl NotImplementedError, h)"
  by (simp add: compare_exponential_decay_rates_def py_seq_def py_bind_def py_raise_def)

section \<open>Loading the table: the recoded column, the features and the response\<close>

lemma map_of_setattr_column:
  "map_of (setattr_column df name s) n =
     (if n = name then map_option (\<lambda>_. s) (map_of df n) else map_of df n)"
  by (induction df) (auto simp: setattr_column_def)

lemma columns_setattr_column: "columns (setattr_column df name s) = columns df"
  by (induction df) (auto simp: setattr_column_def columns_def)

lemma map_of_filter_keep:
  "n \<notin> set labels \<Longrightarrow> map_of (filter (\<lambda>(m, c). m \<notin> set labels) df) n = map_of df n"
  by (induction df) auto

lemma columns_filter:
  "columns (filter (\<lambda>(n, c). P n) df) = filter P (columns df)"
  by (induction df) (auto simp: columns_def)

lemma map_of_columns: "map_of df n \<noteq> None \<longleftrightarrow> n \<in> set (columns df)"
  by (simp add: columns_def map_of_eq_None_iff)

lemma load_data_eq:
  assumes "map_of df ''famhist'' = Some fam"
    and "''chd'' \<in> set (columns df)" and "''row.names'' \<in> set (columns df)"
  shows "\<exists>chd. map_of df ''chd'' = Some chd \<and>
     load_data split df p =
       split (filter (\<lambda>(n, c). n \<notin> set [''chd'', ''row.names''])
                (setattr_column df ''famhist'' (astype_int (series_eq fam (CStr ''Present'')))))
             chd p"
proof -
  from assms(2) obtain chd where chd: "map_of df ''chd'' = Some chd"
    using map_of_columns [of df "''chd''"] by auto
  show ?thesis
    using assms chd
    by (simp add: load_data_def getattr_column_def drop_columns_def columns_setattr_column
        map_of_setattr_column)
qed

text \<open>
  C6. When the table has the columns \<^verbatim>\<open>famhist\<close>, \<^verbatim>\<open>chd\<close> and \<^verbatim>\<open>row.names\<close>, the design
  matrix that \<^verbatim>\<open>load_data\<close> hands to the split has, in every row, 1 in \<^verbatim>\<open>famhist\<close> where the
  loaded table has the string \<^verbatim>\<open>Present\<close> and 0 elsewhere. This holds for every split
  function: the recoding is done before the split is taken.
\<close>

theorem load_data_recodes_famhist:
  assumes "map_of df ''famhist'' = Some fam"
    and "''chd'' \<in> set (columns df)" and "''row.names'' \<in> set (columns df)"
  shows "\<exists>X y. load_data split df p = split X y p \<and>
           map_of X ''famhist'' =
             Some (map (\<lambda>c. if c = CStr ''Present'' then CInt 1 else CInt 0) fam)"
proof -
  let ?df1 = "setattr_column df ''famhist'' (astype_int (series_eq fam (CStr ''Present'')))"
  let ?X = "filter (\<lambda>(n, c). n \<notin> set [''chd'', ''row.names'']) ?df1"
  from load_data_eq [OF assms] obtain chd where
    eq: "load_data split df p = split ?X chd p" by blast
  have "map_of ?X ''famhist'' = map_of ?df1 ''famhist''"
    by (rule map_of_filter_keep) simp
  also have "\<dots> = Some (astype_int (series_eq fam (CStr ''Present'')))"
    using assms(1) by (simp add: map_of_setattr_column)
  finally have fh: "map_of ?X ''famhist'' = Some (astype_int (series_eq fam (CStr ''Present'')))" .
  have "astype_int (series_eq fam (CStr ''Present'')) =
      map (\<lambda>c. if c = CStr ''Present'' then CInt 1 else CInt 0) fam"
    by (simp add: astype_int_def series_eq_def)
  with fh have "map_of ?X ''famhist'' =
      Some (map (\<lambda>c. if c = CStr ''Present'' then CInt 1 else CInt 0) fam)"
    by simp
  with eq show ?thesis by blast
qed

theorem load_data_recodes_famhist_witness:
  "map_of [(''row.names'', [CInt 1, CInt 2]), (''famhist'', [CStr ''Present'', CStr ''Absent'']),
           (''chd'', [CInt 1, CInt 0])] ''famhist'' = Some [CStr ''Present'', CStr ''Absent''] \<and>
   (\<exists>X y. load_data (\<lambda>X y p. Inr (X, y))
            [(''row.names'', [CInt 1, CInt 2]), (''famhist'', [CStr ''Present'', CStr ''Absent'']),
             (''chd'', [CInt 1, CInt 0])] (4 / 5) = Inr (X, y) \<and>
          map_of X ''famhist'' = Some [CInt 1, CInt 0])"
  using load_data_recodes_famhist [of
      "[(''row.names'', [CInt 1, CInt 2]), (''famhist'', [CStr ''Present'', CStr ''Absent'']),
        (''chd'', [CInt 1, CInt 0])]"
      "[CStr ''Present'', CStr ''Absent'']" "\<lambda>X y p. Inr (X, y)" "4 / 5"]
  by (simp add: columns_def)

text \<open>
  C7. In the design matrices that \<^verbatim>\<open>load_data\<close> returns, for train and for test, the columns
  are those of the loaded table without \<^verbatim>\<open>chd\<close> and \<^verbatim>\<open>row.names\<close>, in their order, and the
  responses are the rows of the column \<^verbatim>\<open>chd\<close>. For every split function the design matrix
  handed to it has these columns and the response handed to it is the column \<^verbatim>\<open>chd\<close>.
\<close>

theorem load_data_features_and_response:
  assumes "load_data (split_train_test order) df p = Inr (train_X, train_y, test_X, test_y)"
  shows "''chd'' \<notin> set (columns train_X) \<and> ''row.names'' \<notin> set (columns train_X) \<and>
         ''chd'' \<notin> set (columns test_X) \<and> ''row.names'' \<notin> set (columns test_X) \<and>
         columns train_X = filter (\<lambda>n. n \<noteq> ''chd'' \<and> n \<noteq> ''row.names'') (columns df) \<and>
         columns test_X = columns train_X \<and>
         (\<exists>chd. map_of df ''chd'' = Some chd \<and>
            train_y = select_rows (take (nat \<lceil>p * real (length chd)\<rceil>) order) chd \<and>
            test_y = select_rows (drop (nat \<lceil>p * real (length chd)\<rceil>) order) chd) \<and>
         (\<forall>split. \<exists>X y. load_data split df p = split X y p \<and>
            columns X = filter (\<lambda>n. n \<noteq> ''chd'' \<and> n \<noteq> ''row.names'') (columns df) \<and>
            map_of df ''chd'' = Some y)"
proof -
  from assms obtain fam where fam: "map_of df ''famhist'' = Some fam"
    by (auto simp: load_data_def getattr_column_def split: option.splits)
  let ?df1 = "setattr_column df ''famhist'' (astype_int (series_eq fam (CStr ''Present'')))"
  from assms fam have cols: "''chd'' \<in> set (columns df)" "''row.names'' \<in> set (columns df)"
    by (auto simp: load_data_def getattr_column_def drop_columns_def columns_setattr_column
        Let_def split: if_splits)
  let ?X = "filter (\<lambda>(n, c). n \<notin> set [''chd'', ''row.names'']) ?df1"
  from load_data_eq [OF fam cols] obtain chd where chd: "map_of df ''chd'' = Some chd"
    and eq: "load_data (split_train_test order) df p = split_train_test order ?X chd p"
    by blast
  let ?k = "nat \<lceil>p * real (length chd)\<rceil>"
  from assms eq have tr: "train_X = map (\<lambda>(n, c). (n, select_rows (take ?k order) c)) ?X"
    and te: "test_X = map (\<lambda>(n, c). (n, select_rows (drop ?k order) c)) ?X"
    and ys: "train_y = select_rows (take ?k order) chd" "test_y = select_rows (drop ?k order) chd"
    by (simp_all add: split_train_test_def Let_def)
  have cX: "columns ?X = filter (\<lambda>n. n \<noteq> ''chd'' \<and> n \<noteq> ''row.names'') (columns df)"
    using columns_filter [of "\<lambda>n. n \<noteq> ''chd'' \<and> n \<noteq> ''row.names''" ?df1]
    by (simp add: columns_setattr_column)
  have ctr: "columns train_X = columns ?X" unfolding tr columns_def
    by (simp add: case_prod_beta comp_def)
  have cte: "columns test_X = columns ?X" unfolding te columns_def
    by (simp add: case_prod_beta comp_def)
  have gen: "\<forall>split. \<exists>X y. load_data split df p = split X y p \<and>
            columns X = filter (\<lambda>n. n \<noteq> ''chd'' \<and> n \<noteq> ''row.names'') (columns df) \<and>
            map_of df ''chd'' = Some y"
  proof
    fix split
    from load_data_eq [OF fam cols, of split p] chd
    have "load_data split df p = split ?X chd p" by simp
    with cX chd show "\<exists>X y. load_data split df p = split X y p \<and>
            columns X = filter (\<lambda>n. n \<noteq> ''chd'' \<and> n \<noteq> ''row.names'') (columns df) \<and>
            map_of df ''chd'' = Some y" by blast
  qed
  have sel: "''chd'' \<notin> set (columns train_X) \<and> ''row.names'' \<notin> set (columns train_X) \<and>
         ''chd'' \<notin> set (columns test_X) \<and> ''row.names'' \<notin> set (columns test_X) \<and>
         columns train_X = filter (\<lambda>n. n \<noteq> ''chd'' \<and> n \<noteq> ''row.names'') (columns df) \<and>
         columns test_X = columns train_X \<and>
         (\<exists>chd. map_of df ''chd'' = Some chd \<and>
            train_y = select_rows (take (nat \<lceil>p * real (length chd)\<rceil>) order) chd \<and>
            test_y = select_rows (drop (nat \<lceil>p * real (length chd)\<rceil>) order) chd)"
    using ctr cte cX chd ys by auto
  from sel gen show ?thesis by (intro conjI) blast+
qed

theorem load_data_features_and_response_witness:
  "load_data (split_train_test [1, 0]) 
     [(''row.names'', [CInt 1, CInt 2]), (''sbp'', [CInt 160, CInt 144]),
      (''famhist'', [CStr ''Present'', CStr ''Absent'']), (''chd'', [CInt 1, CInt 0])] (1 / 2)
     = Inr ([(''sbp'', [CInt 144]), (''famhist'', [CInt 0])], [CInt 0],
            [(''sbp'', [CInt 160]), (''famhist'', [CInt 1])], [CInt 1]) \<and>
   ''chd'' \<notin> set (columns [(''sbp'', [CInt 144]), (''famhist'', [CInt 0])]) \<and>
   ''row.names'' \<notin> set (columns [(''sbp'', [CInt 144]), (''famhist'', [CInt 0])])"
proof -
  have run: "load_data (split_train_test [1, 0]) 
     [(''row.names'', [CInt 1, CInt 2]), (''sbp'', [CInt 160, CInt 144]),
      (''famhist'', [CStr ''Present'', CStr ''Absent'']), (''chd'', [CInt 1, CInt 0])] (1 / 2)
     = Inr ([(''sbp'', [CInt 144]), (''famhist'', [CInt 0])], [CInt 0],
            [(''sbp'', [CInt 160]), (''famhist'', [CInt 1])], [CInt 1])"
    by (simp add: load_data_def getattr_column_def setattr_column_def astype_int_def
        series_eq_def drop_columns_def columns_def split_train_test_def select_rows_def)
  from load_data_features_and_response [OF run] run show ?thesis by blast
qed

section \<open>The optimization loop: best output, iteration cap, determinism\<close>

lemma best_step_None: "best_step rs = None \<longleftrightarrow> rs = []"
  by (induction rs) (auto split: option.splits)

lemma best_step_least:
  "best_step rs = Some b \<Longrightarrow> b \<in> set rs \<and> (\<forall>r \<in> set rs. step_val b \<le> step_val r)"
proof (induction rs arbitrary: b)
  case Nil
  then show ?case by simp
next
  case (Cons r rs)
  show ?case
  proof (cases "best_step rs")
    case None
    with Cons.prems show ?thesis by (simp add: best_step_None)
  next
    case (Some b')
    with Cons.IH have "b' \<in> set rs" "\<forall>x \<in> set rs. step_val b' \<le> step_val x" by auto
    with Cons.prems Some show ?thesis by (auto split: if_splits)
  qed
qed

lemma gd_loop_stop:
  "nat (max_iter gd) \<le> k \<Longrightarrow>
     gd_loop gd f k w traj s =
       \<lparr>run_error = None, run_weights = w, run_trajectory = traj, run_state = s, run_steps = k\<rparr>"
  by (simp add: gd_loop.simps)

lemma gd_loop_step:
  assumes "k < nat (max_iter gd)"
  shows "(\<exists>e w1 s1. gd_loop gd f k w traj s =
            \<lparr>run_error = Some e, run_weights = w1, run_trajectory = traj, run_state = s1,
             run_steps = Suc k\<rparr>) \<or>
         (\<exists>r s1. compute_output f (step_weights r) = Some (step_val r) \<and>
            (gd_loop gd f k w traj s =
               \<lparr>run_error = None, run_weights = step_weights r, run_trajectory = traj @ [r],
                run_state = s1, run_steps = Suc k\<rparr> \<or>
             gd_loop gd f k w traj s = gd_loop gd f (Suc k) (step_weights r) (traj @ [r]) s1))"
proof -
  note eq = gd_loop.simps [of gd f k w traj s]
  from assms have run: "\<not> nat (max_iter gd) \<le> k" by simp
  show ?thesis
  proof (cases "compute_jacobian f w")
    case None
    with run eq show ?thesis by simp
  next
    case (Some g)
    note jac = Some
    show ?thesis
    proof (cases "length g = length w")
      case False
      with run jac eq show ?thesis by simp
    next
      case True
      note dim = True
      let ?w' = "vec_sub w (vec_scale (learning_rate gd k) g)"
      show ?thesis
      proof (cases "compute_output f ?w'")
        case None
        with run jac dim eq show ?thesis by (simp add: Let_def)
      next
        case (Some v)
        note out = Some
        let ?r = "\<lparr>step_index = k, step_weights = ?w', step_val = v, step_grad = g,
                    step_eta = learning_rate gd k\<rparr>"
        obtain x s1 where obs: "observer gd ?r s = (x, s1)" by (cases "observer gd ?r s")
        have val: "compute_output f (step_weights ?r) = Some (step_val ?r)"
          using out by simp
        show ?thesis
        proof (cases x)
          case (Inl e)
          with run jac dim out obs eq show ?thesis by (simp add: Let_def)
        next
          case (Inr u)
          show ?thesis
          proof (cases "norm_sq (vec_sub ?w' w) < tol gd * tol gd")
            case True
            with Inr run jac dim out obs eq
            have "gd_loop gd f k w traj s =
               \<lparr>run_error = None, run_weights = step_weights ?r, run_trajectory = traj @ [?r],
                run_state = s1, run_steps = Suc k\<rparr>"
              by (simp add: Let_def)
            with val show ?thesis by blast
          next
            case False
            with Inr run jac dim out obs eq
            have "gd_loop gd f k w traj s = gd_loop gd f (Suc k) (step_weights ?r) (traj @ [?r]) s1"
              by (simp add: Let_def)
            with val show ?thesis by blast
          qed
        qed
      qed
    qed
  qed
qed

lemma gd_loop_recorded_values:
  assumes "\<forall>r \<in> set traj. compute_output f (step_weights r) = Some (step_val r)"
  shows "\<forall>r \<in> set (run_trajectory (gd_loop gd f k w traj s)).
           compute_output f (step_weights r) = Some (step_val r)"
  using assms
proof (induction "nat (max_iter gd) - k" arbitrary: k w traj s rule: less_induct)
  case less
  show ?case
  proof (cases "k < nat (max_iter gd)")
    case False
    with less.prems show ?thesis by (simp add: gd_loop_stop)
  next
    case True
    from gd_loop_step [OF True, of f w traj s] show ?thesis
    proof (elim disjE exE conjE)
      fix e w1 s1
      assume "gd_loop gd f k w traj s =
        \<lparr>run_error = Some e, run_weights = w1, run_trajectory = traj, run_state = s1,
         run_steps = Suc k\<rparr>"
      with less.prems show ?thesis by simp
    next
      fix r s1
      assume "compute_output f (step_weights r) = Some (step_val r)"
        and "gd_loop gd f k w traj s =
          \<lparr>run_error = None, run_weights = step_weights r, run_trajectory = traj @ [r],
           run_state = s1, run_steps = Suc k\<rparr>"
      with less.prems show ?thesis by simp
    next
      fix r s1
      assume v: "compute_output f (step_weights r) = Some (step_val r)"
        and eq: "gd_loop gd f k w traj s = gd_loop gd f (Suc k) (step_weights r) (traj @ [r]) s1"
      from True have "nat (max_iter gd) - Suc k < nat (max_iter gd) - k" by simp
      moreover from v less.prems
      have "\<forall>x \<in> set (traj @ [r]). compute_output f (step_weights x) = Some (step_val x)"
        by simp
      ultimately show ?thesis unfolding eq by (rule less.hyps)
    qed
  qed
qed

lemma gd_loop_steps:
  "run_steps (gd_loop gd f k w traj s) \<le> max k (nat (max_iter gd)) \<and>
   k \<le> run_steps (gd_loop gd f k w traj s) \<and>
   (k < nat (max_iter gd) \<longrightarrow> k < run_steps (gd_loop gd f k w traj s)) \<and>
   length (run_trajectory (gd_loop gd f k w traj s)) + k
     \<le> run_steps (gd_loop gd f k w traj s) + length traj \<and>
   (run_error (gd_loop gd f k w traj s) = None \<longrightarrow>
      length (run_trajectory (gd_loop gd f k w traj s)) + k
        = run_steps (gd_loop gd f k w traj s) + length traj)"
proof (induction "nat (max_iter gd) - k" arbitrary: k w traj s rule: less_induct)
  case less
  show ?case
  proof (cases "k < nat (max_iter gd)")
    case False
    then show ?thesis by (simp add: gd_loop_stop)
  next
    case True
    from gd_loop_step [OF True, of f w traj s] show ?thesis
    proof (elim disjE exE conjE)
      fix e w1 s1
      assume "gd_loop gd f k w traj s =
        \<lparr>run_error = Some e, run_weights = w1, run_trajectory = traj, run_state = s1,
         run_steps = Suc k\<rparr>"
      with True show ?thesis by simp
    next
      fix r s1
      assume "gd_loop gd f k w traj s =
          \<lparr>run_error = None, run_weights = step_weights r, run_trajectory = traj @ [r],
           run_state = s1, run_steps = Suc k\<rparr>"
      with True show ?thesis by simp
    next
      fix r s1
      assume eq: "gd_loop gd f k w traj s = gd_loop gd f (Suc k) (step_weights r) (traj @ [r]) s1"
      from True have "nat (max_iter gd) - Suc k < nat (max_iter gd) - k" by simp
      from less.hyps [OF this, of "step_weights r" "traj @ [r]" s1] True
      show ?thesis unfolding eq by (auto simp: max_def split: if_splits)
    qed
  qed
qed

lemma gd_loop_completed_nonempty:
  assumes "0 < max_iter gd" and "run_error (gd_loop gd f 0 w0 [] s) = None"
  shows "run_trajectory (gd_loop gd f 0 w0 [] s) \<noteq> []"
  using assms gd_loop_steps [of gd f 0 w0 "[]" s] by auto

lemma example_loop:
  "gd_loop (GradientDescent (3 / 2) 0 2 p list_recorder) L2 0 [1, 1] [] s0 =
     \<lparr>run_error = None, run_weights = [4, 4],
      run_trajectory =
        [\<lparr>step_index = 0, step_weights = [- 2, - 2], step_val = 8, step_grad = [2, 2],
          step_eta = 3 / 2\<rparr>,
         \<lparr>step_index = 1, step_weights = [4, 4], step_val = 32, step_grad = [- 4, - 4],
          step_eta = 3 / 2\<rparr>],
      run_state = s0 @
        [\<lparr>step_index = 0, step_weights = [- 2, - 2], step_val = 8, step_grad = [2, 2],
          step_eta = 3 / 2\<rparr>,
         \<lparr>step_index = 1, step_weights = [4, 4], step_val = 32, step_grad = [- 4, - 4],
          step_eta = 3 / 2\<rparr>],
      run_steps = 2\<rparr>"
  by (simp add: gd_loop.simps GradientDescent_def FixedLR_def L2_def list_recorder_def
      vec_sub_def vec_scale_def norm_sq_def Let_def)

lemma example_fit:
  "fit (GradientDescent (3 / 2) 0 2 p list_recorder) L2 [1, 1] s0 =
     (Inr (case p of Last \<Rightarrow> [4, 4] | Best \<Rightarrow> [- 2, - 2]),
      gd_loop (GradientDescent (3 / 2) 0 2 p list_recorder) L2 0 [1, 1] [] s0)"
proof -
  have cfg: "max_iter (GradientDescent (3 / 2) 0 2 p list_recorder) = 2"
    "tol (GradientDescent (3 / 2) 0 2 p list_recorder) = 0"
    "out_type (GradientDescent (3 / 2) 0 2 p list_recorder) = p"
    by (simp_all add: GradientDescent_def)
  show ?thesis
    unfolding fit_def cfg
    by (simp add: example_loop select_output_def Let_def split: out_policy.splits)
qed

text \<open>
  C8. With the output policy \<open>Best\<close>, whenever \<^verbatim>\<open>fit\<close> returns a result, the objective is
  finite there and its value is at most the objective value of every recorded iterate of
  the run.
\<close>

theorem best_output_is_minimal:
  assumes "out_type gd = Best" and "fit gd f w0 s = (Inr w, run)"
  shows "\<exists>v. compute_output f w = Some v \<and> (\<forall>r \<in> set (run_trajectory run). v \<le> step_val r)"
proof -
  from assms(2) have valid: "0 < max_iter gd"
    and run: "run = gd_loop gd f 0 w0 [] s" and ok: "run_error run = None"
    and w: "w = select_output Best run"
    using assms(1) by (auto simp: fit_def Let_def split: if_splits option.splits)
  from valid ok run have "run_trajectory run \<noteq> []"
    using gd_loop_completed_nonempty [of gd f w0 s] by simp
  then obtain b where b: "best_step (run_trajectory run) = Some b"
    using best_step_None [of "run_trajectory run"] by auto
  from best_step_least [OF b] have mem: "b \<in> set (run_trajectory run)"
    and least: "\<forall>r \<in> set (run_trajectory run). step_val b \<le> step_val r" by auto
  have "\<forall>r \<in> set (run_trajectory run). compute_output f (step_weights r) = Some (step_val r)"
    unfolding run by (rule gd_loop_recorded_values) simp
  with mem have "compute_output f (step_weights b) = Some (step_val b)" by blast
  moreover from w b have "w = step_weights b" by (simp add: select_output_def)
  ultimately show ?thesis using least by blast
qed

theorem best_output_is_minimal_witness:
  "out_type (GradientDescent (3 / 2) 0 2 Best list_recorder) = Best \<and>
   fst (fit (GradientDescent (3 / 2) 0 2 Best list_recorder) L2 [1, 1] []) = Inr [- 2, - 2] \<and>
   map step_val
     (run_trajectory (snd (fit (GradientDescent (3 / 2) 0 2 Best list_recorder) L2 [1, 1] [])))
     = [8, 32] \<and>
   (\<exists>v. compute_output L2 [- 2, - 2] = Some v \<and>
      (\<forall>r \<in> set (run_trajectory
          (snd (fit (GradientDescent (3 / 2) 0 2 Best list_recorder) L2 [1, 1] []))).
         v \<le> step_val r))"
proof -
  let ?gd = "GradientDescent (3 / 2) 0 2 Best list_recorder"
  have p: "out_type ?gd = Best" by (simp add: GradientDescent_def)
  have run: "fit ?gd L2 [1, 1] [] = (Inr [- 2, - 2], gd_loop ?gd L2 0 [1, 1] [] [])"
    by (simp add: example_fit)
  from best_output_is_minimal [OF p run] p run show ?thesis
    by (simp add: example_loop)
qed

text \<open>
  C9. For a positive iteration cap and a tolerance that is not negative, a run starts at
  most \<open>max_iter\<close> iterations, and completes no more iterations than it starts. The loop
  is a total function: its termination is proved with the measure \<open>max_iter - k\<close> where it
  is defined, so every run ends.
\<close>

theorem loop_within_max_iterations:
  assumes "0 < max_iter gd" and "0 \<le> tol gd"
  shows "int (run_steps (snd (fit gd f w0 s))) \<le> max_iter gd \<and>
         length (run_trajectory (snd (fit gd f w0 s))) \<le> run_steps (snd (fit gd f w0 s))"
proof -
  let ?run = "gd_loop gd f 0 w0 [] s"
  from assms have run: "snd (fit gd f w0 s) = ?run"
    by (simp add: fit_def Let_def split: option.splits)
  have "run_steps ?run \<le> nat (max_iter gd)"
    using gd_loop_steps [of gd f 0 w0 "[]" s] by simp
  with assms(1) have "int (run_steps ?run) \<le> max_iter gd" by linarith
  moreover have "length (run_trajectory ?run) \<le> run_steps ?run"
    using gd_loop_steps [of gd f 0 w0 "[]" s] by simp
  ultimately show ?thesis by (simp add: run)
qed

theorem loop_within_max_iterations_witness:
  "0 < max_iter (GradientDescent (3 / 2) 0 2 Last list_recorder) \<and>
   0 \<le> tol (GradientDescent (3 / 2) 0 2 Last list_recorder) \<and>
   run_steps (snd (fit (GradientDescent (3 / 2) 0 2 Last list_recorder) L2 [1, 1] [])) = 2 \<and>
   int (run_steps (snd (fit (GradientDescent (3 / 2) 0 2 Last list_recorder) L2 [1, 1] [])))
     \<le> max_iter (GradientDescent (3 / 2) 0 2 Last list_recorder)"
proof -
  let ?gd = "GradientDescent (3 / 2) 0 2 Last list_recorder"
  have 1: "0 < max_iter ?gd" by (simp add: GradientDescent_def)
  have 2: "0 \<le> tol ?gd" by (simp add: GradientDescent_def)
  have 3: "run_steps (snd (fit ?gd L2 [1, 1] [])) = 2"
    by (simp add: example_fit example_loop)
  from loop_within_max_iterations [OF 1 2, of L2 "[1, 1]" "[]"] 1 2 3 show ?thesis
    by blast
qed
















end
